theory Spec2Isabelle
  imports Main "HOL-Library.Word" "HOL-Library.AList" "HOL-Library.Multiset"
begin

unbundle bit_operations_syntax

section \<open>jaunt: a shallow embedding of \<^verbatim>\<open>src/jaunt/jaunt.py\<close>\<close>

text \<open>
  Python \<^verbatim>\<open>str\<close> values are modelled as \<^typ>\<open>string\<close>, one \<^typ>\<open>char\<close> per
  character, which covers the code points 0 to 255. Python integers are \<^typ>\<open>int\<close>.
  Every exception the code can raise is a value of \<open>error\<close>; a function that can raise
  returns \<open>error + 'a\<close>, with \<open>Inl\<close> for the exception.
\<close>

datatype error =
    NotImplementedError string
  | KeyError
  | TypeError
  | ValueError
  | StopIteration
  | OSError
  | DatabaseError string

subsection \<open>The part of Python's \<^verbatim>\<open>re\<close> module that \<^verbatim>\<open>MIGR_MATCH\<close> uses\<close>

text \<open>
  A pattern is a term of \<open>regex\<close>. \<open>rmatch r s g\<close> lists, in the order a backtracking
  matcher tries them, every way \<open>r\<close> can match a prefix of \<open>s\<close>: the groups captured so
  far and the rest of the input. Greedy operators list the longer match first.
  \<open>Dot\<close> is \<^verbatim>\<open>.\<close> (any character but a newline), \<open>Digit\<close> is \<^verbatim>\<open>\d\<close>,
  \<open>OneOf\<close> is a character class, \<open>Grp\<close> is a named group.
\<close>

datatype regex =
    Lit char
  | Dot
  | Digit
  | OneOf "char list"
  | Cat regex regex
  | Opt regex
  | Plus regex
  | Grp string regex

type_synonym groups = "(string \<times> string) list"

definition is_digit :: "char \<Rightarrow> bool" where
  "is_digit c = (c \<in> set ''0123456789'')"

fun rchar :: "(char \<Rightarrow> bool) \<Rightarrow> string \<Rightarrow> groups \<Rightarrow> (groups \<times> string) list" where
  "rchar p [] g = []"
| "rchar p (x # xs) g = (if p x then [(g, xs)] else [])"

function rmatch :: "regex \<Rightarrow> string \<Rightarrow> groups \<Rightarrow> (groups \<times> string) list" where
  "rmatch (Lit c) s g = rchar (\<lambda>x. x = c) s g"
| "rmatch Dot s g = rchar (\<lambda>x. x \<noteq> CHR 0x0A) s g"
| "rmatch Digit s g = rchar is_digit s g"
| "rmatch (OneOf cs) s g = rchar (\<lambda>x. x \<in> set cs) s g"
| "rmatch (Cat a b) s g = concat (map (\<lambda>(g', r). rmatch b r g') (rmatch a s g))"
| "rmatch (Opt a) s g = rmatch a s g @ [(g, s)]"
| "rmatch (Plus a) s g =
     concat (map (\<lambda>(g', r). (if length r < length s then rmatch (Plus a) r g' else []) @ [(g', r)])
                 (rmatch a s g))"
| "rmatch (Grp n a) s g =
     map (\<lambda>(g', r). (AList.update n (take (length s - length r) s) g', r)) (rmatch a s g)"
  by pat_completeness auto
termination
  by (relation "measures [\<lambda>(r, s, g). size r, \<lambda>(r, s, g). length s]") auto

text \<open>\<^verbatim>\<open>Pattern.fullmatch\<close>: the first way to match that consumes the whole string.\<close>

definition fullmatch :: "regex \<Rightarrow> string \<Rightarrow> groups option" where
  "fullmatch r s = (case filter (\<lambda>(g, rest). rest = []) (rmatch r s []) of
                      [] \<Rightarrow> None
                    | (g, rest) # _ \<Rightarrow> Some g)"

fun lits :: "string \<Rightarrow> regex \<Rightarrow> regex" where
  "lits [] r = r"
| "lits (c # cs) r = Cat (Lit c) (lits cs r)"

text \<open>
  \<^verbatim>\<open>MIGR_MATCH = re.compile("^(?P<type>[UV])(?P<num>\d+)(__(?P<desc>.+))?.sql$")\<close>.
  The pattern is only used through \<^verbatim>\<open>fullmatch\<close>, under which the anchors
  \<^verbatim>\<open>^\<close> and \<^verbatim>\<open>$\<close> add nothing. The character before \<^verbatim>\<open>sql\<close> is an
  unescaped \<^verbatim>\<open>.\<close> in the source, hence \<open>Dot\<close>. Group 3 is unnamed and never read.
\<close>

definition MIGR_MATCH :: regex where
  "MIGR_MATCH =
     Cat (Grp ''type'' (OneOf ''UV''))
    (Cat (Grp ''num'' (Plus Digit))
    (Cat (Opt (lits ''__'' (Grp ''desc'' (Plus Dot))))
    (Cat Dot
         (lits ''sq'' (Lit CHR ''l'')))))"

text \<open>
  The grammar as the specification words it, \<^verbatim>\<open>^(U|V)(\d+)(__(description))?\.sql$\<close>,
  with a literal dot before the extension: written down for comparison with
  \<open>MIGR_MATCH\<close>, not taken from the code.
\<close>

definition SPEC_GRAMMAR :: regex where
  "SPEC_GRAMMAR =
     Cat (Grp ''type'' (OneOf ''UV''))
    (Cat (Grp ''num'' (Plus Digit))
    (Cat (Opt (lits ''__'' (Grp ''desc'' (Plus Dot))))
    (Cat (Lit CHR ''.'')
         (lits ''sq'' (Lit CHR ''l'')))))"

definition PREFIX_TO_TYPE :: "(string \<times> string) list" where
  "PREFIX_TO_TYPE = [(''V'', ''up''), (''U'', ''down'')]"

subsection \<open>The class \<^verbatim>\<open>Migration\<close>\<close>

record migration =
  type :: string
  ver_from :: int
  ver_to :: int
  desc :: "string option"
  file' :: string

definition Migration :: "string \<Rightarrow> int \<Rightarrow> string option \<Rightarrow> string \<Rightarrow> error + migration" where
  "Migration ty v d f =
     (if ty = ''up'' then
        Inr \<lparr>type = ty, ver_from = v - 1, ver_to = v, desc = d, file' = f\<rparr>
      else if ty = ''down'' then
        Inr \<lparr>type = ty, ver_from = v, ver_to = v - 1, desc = d, file' = f\<rparr>
      else Inl (NotImplementedError ty))"

definition ver :: "migration \<Rightarrow> error + int" where
  "ver m =
     (if type m = ''up'' then Inr (ver_to m)
      else if type m = ''down'' then Inr (ver_from m)
      else Inl (NotImplementedError (type m)))"

subsection \<open>Raising and propagating exceptions\<close>

definition bind :: "error + 'a \<Rightarrow> ('a \<Rightarrow> error + 'b) \<Rightarrow> error + 'b" where
  "bind x k = (case x of Inl e \<Rightarrow> Inl e | Inr v \<Rightarrow> k v)"

definition lookup :: "('k \<times> 'v) list \<Rightarrow> 'k \<Rightarrow> error + 'v" where
  \<comment> \<open>\<^verbatim>\<open>d[k]\<close> on a dict: a missing key raises \<^verbatim>\<open>KeyError\<close>.\<close>
  "lookup d k = (case map_of d k of None \<Rightarrow> Inl KeyError | Some v \<Rightarrow> Inr v)"

fun mapM :: "('a \<Rightarrow> error + 'b) \<Rightarrow> 'a list \<Rightarrow> error + 'b list" where
  "mapM k [] = Inr []"
| "mapM k (x # xs) = bind (k x) (\<lambda>y. bind (mapM k xs) (\<lambda>ys. Inr (y # ys)))"

subsection \<open>\<^verbatim>\<open>_get_migrations_from_dir\<close>\<close>

definition digit_val :: "char \<Rightarrow> int" where
  "digit_val c = int (of_char c) - 48"

text \<open>
  \<^verbatim>\<open>int(s)\<close> on the strings the code gives it, which are runs of decimal digits;
  a string that is no number raises \<^verbatim>\<open>ValueError\<close>.
\<close>

definition int_of_str :: "string \<Rightarrow> error + int" where
  "int_of_str s =
     (if s \<noteq> [] \<and> list_all is_digit s
      then Inr (foldl (\<lambda>a c. 10 * a + digit_val c) 0 s)
      else Inl ValueError)"

text \<open>
  The body of the loop over the directory, up to the \<^verbatim>\<open>Migration\<close> it builds:
  \<open>None\<close> when the name does not match (the file is passed over). \<^verbatim>\<open>match["desc"]\<close>
  is \<^verbatim>\<open>None\<close> when the optional group took no part in the match. A file is
  identified by its name.
\<close>

definition descriptor :: "string \<Rightarrow> error + migration option" where
  "descriptor name =
     (case fullmatch MIGR_MATCH name of
        None \<Rightarrow> Inr None
      | Some g \<Rightarrow>
          bind (lookup g ''type'') (\<lambda>prefix.
          bind (lookup PREFIX_TO_TYPE prefix) (\<lambda>migr_type.
          bind (lookup g ''num'') (\<lambda>num.
          bind (int_of_str num) (\<lambda>n.
          bind (Migration migr_type n (map_of g ''desc'') name) (\<lambda>migr.
          Inr (Some migr)))))))"

type_synonym migrations = "(string \<times> migration list) list"

fun scan :: "string list \<Rightarrow> migrations \<Rightarrow> error + migrations" where
  "scan [] migrations = Inr migrations"
| "scan (name # names) migrations =
     bind (descriptor name) (\<lambda>r.
       case r of
         None \<Rightarrow> scan names migrations
       | Some migr \<Rightarrow>
           bind (lookup migrations (type migr)) (\<lambda>l.
           scan names (AList.update (type migr) (l @ [migr]) migrations)))"

text \<open>
  \<^verbatim>\<open>list.sort(key=lambda x: x.ver)\<close>: the keys are computed first (any of them may
  raise), then the list is sorted by key, stably.
\<close>

definition sort_by_ver :: "migration list \<Rightarrow> error + migration list" where
  "sort_by_ver l = bind (mapM ver l) (\<lambda>ks. Inr (map snd (sort_key fst (zip ks l))))"

definition get_migrations_from_dir :: "string list \<Rightarrow> error + migrations" where
  "get_migrations_from_dir path =
     bind (scan path (map (\<lambda>t. (t, [])) (map snd PREFIX_TO_TYPE))) (\<lambda>migrations.
     mapM (\<lambda>(migr_type, migr_list). bind (sort_by_ver migr_list) (\<lambda>l. Inr (migr_type, l)))
          migrations)"

subsection \<open>\<^verbatim>\<open>bisect.bisect\<close> with a key, and slices\<close>

text \<open>
  The binary search of \<^verbatim>\<open>bisect_right(a, x, key=...)\<close>, from \<open>lo = 0\<close> and
  \<open>hi = len(a)\<close>. The index \<open>mid\<close> it reads is always below \<open>hi\<close>.
\<close>

function bisect_loop :: "('a \<Rightarrow> error + int) \<Rightarrow> 'a list \<Rightarrow> int \<Rightarrow> nat \<Rightarrow> nat \<Rightarrow> error + nat" where
  "bisect_loop key a x lo hi =
     (if lo < hi then
        (case key (a ! ((lo + hi) div 2)) of
           Inl e \<Rightarrow> Inl e
         | Inr k \<Rightarrow> if x < k then bisect_loop key a x lo ((lo + hi) div 2)
                    else bisect_loop key a x ((lo + hi) div 2 + 1) hi)
      else Inr lo)"
  by pat_completeness auto
termination
  by (relation "measure (\<lambda>(key, a, x, lo, hi). hi - lo)") auto

definition bisect :: "('a \<Rightarrow> error + int) \<Rightarrow> 'a list \<Rightarrow> int \<Rightarrow> error + nat" where
  "bisect key a x = bisect_loop key a x 0 (length a)"

definition slice :: "'a list \<Rightarrow> nat \<Rightarrow> nat \<Rightarrow> 'a list" where
  \<comment> \<open>\<^verbatim>\<open>a[i:j]\<close> for indices between 0 and \<^verbatim>\<open>len(a)\<close>; empty when \<open>j \<le> i\<close>.\<close>
  "slice a i j = drop i (take j a)"

text \<open>
  \<^verbatim>\<open>sorted(l, key=lambda x: x.ver, reverse=True)\<close>: descending by key, and elements
  with equal keys keep their order.
\<close>

definition sorted_by_ver_reverse :: "migration list \<Rightarrow> error + migration list" where
  "sorted_by_ver_reverse l =
     bind (mapM ver l) (\<lambda>ks. Inr (rev (map snd (sort_key fst (rev (zip ks l))))))"

subsection \<open>\<^verbatim>\<open>str.encode\<close> and \<^verbatim>\<open>hashlib.sha1\<close>\<close>

type_synonym u8 = "8 word"
type_synonym u32 = "32 word"

text \<open>UTF-8 of one character with a code point below 256: one byte, or two from 128 on.\<close>

definition utf8 :: "char \<Rightarrow> u8 list" where
  "utf8 c =
     (if (of_char c :: nat) < 128 then [of_nat (of_char c)]
      else [0xC0 OR of_nat (of_char c div 64), 0x80 OR of_nat (of_char c mod 64)])"

definition encode :: "string \<Rightarrow> u8 list" where
  "encode s = concat (map utf8 s)"

text \<open>
  SHA-1 as FIPS 180 defines it: the message is padded with the byte \<open>0x80\<close>, zeros up to
  56 modulo 64 bytes, and its length in bits as 8 bytes; every block of 16 big-endian words
  is expanded to 80 words and run through 80 rounds.
\<close>

definition rotl :: "nat \<Rightarrow> u32 \<Rightarrow> u32" where
  "rotl n x = push_bit n x OR drop_bit (32 - n) x"

definition be64 :: "nat \<Rightarrow> u8 list" where
  "be64 n = map (\<lambda>i. of_nat (n div 2 ^ (8 * i))) [7, 6, 5, 4, 3, 2, 1, 0]"

definition pad :: "u8 list \<Rightarrow> u8 list" where
  "pad msg =
     msg @ [0x80] @ replicate ((64 - (length msg + 9) mod 64) mod 64) 0 @ be64 (8 * length msg)"

fun be_words :: "u8 list \<Rightarrow> u32 list" where
  "be_words (a # b # c # d # rest) =
     (push_bit 24 (ucast a) OR push_bit 16 (ucast b) OR push_bit 8 (ucast c) OR ucast d)
       # be_words rest"
| "be_words _ = []"

function blocks :: "u32 list \<Rightarrow> u32 list list" where
  "blocks ws = (if length ws < 16 then [] else take 16 ws # blocks (drop 16 ws))"
  by pat_completeness auto
termination
  by (relation "measure length") auto

fun schedule :: "nat \<Rightarrow> u32 list \<Rightarrow> u32 list" where
  "schedule 0 w = w"
| "schedule (Suc n) w =
     schedule n (w @ [rotl 1 (w ! (length w - 3) XOR w ! (length w - 8)
                              XOR w ! (length w - 14) XOR w ! (length w - 16))])"

definition sha1_f :: "nat \<Rightarrow> u32 \<Rightarrow> u32 \<Rightarrow> u32 \<Rightarrow> u32" where
  "sha1_f t b c d =
     (if t < 20 then (b AND c) OR (NOT b AND d)
      else if t < 40 then b XOR c XOR d
      else if t < 60 then (b AND c) OR (b AND d) OR (c AND d)
      else b XOR c XOR d)"

definition sha1_K :: "nat \<Rightarrow> u32" where
  "sha1_K t =
     (if t < 20 then 0x5A827999
      else if t < 40 then 0x6ED9EBA1
      else if t < 60 then 0x8F1BBCDC
      else 0xCA62C1D6)"

type_synonym hstate = "u32 \<times> u32 \<times> u32 \<times> u32 \<times> u32"

fun round' :: "nat \<Rightarrow> u32 \<Rightarrow> hstate \<Rightarrow> hstate" where
  "round' t w (a, b, c, d, e) = (rotl 5 a + sha1_f t b c d + e + sha1_K t + w, a, rotl 30 b, c, d)"

fun rounds :: "nat \<Rightarrow> u32 list \<Rightarrow> hstate \<Rightarrow> hstate" where
  "rounds t [] h = h"
| "rounds t (w # ws) h = rounds (t + 1) ws (round' t w h)"

fun add_state :: "hstate \<Rightarrow> hstate \<Rightarrow> hstate" where
  "add_state (a, b, c, d, e) (a', b', c', d', e') = (a + a', b + b', c + c', d + d', e + e')"

definition compress :: "hstate \<Rightarrow> u32 list \<Rightarrow> hstate" where
  "compress h block = add_state h (rounds 0 (schedule 64 block) h)"

definition H0 :: hstate where
  "H0 = (0x67452301, 0xEFCDAB89, 0x98BADCFE, 0x10325476, 0xC3D2E1F0)"

definition sha1 :: "u8 list \<Rightarrow> hstate" where
  "sha1 msg = foldl compress H0 (blocks (be_words (pad msg)))"

definition hex_digit :: "nat \<Rightarrow> char" where
  "hex_digit n = ''0123456789abcdef'' ! n"

definition hex32 :: "u32 \<Rightarrow> string" where
  "hex32 w = map (\<lambda>i. hex_digit (unat (drop_bit (4 * i) w AND 0xF))) [7, 6, 5, 4, 3, 2, 1, 0]"

fun hexdigest :: "hstate \<Rightarrow> string" where
  "hexdigest (a, b, c, d, e) = hex32 a @ hex32 b @ hex32 c @ hex32 d @ hex32 e"

subsection \<open>The database session, the clock and the terminal\<close>

text \<open>
  A row of the table \<^verbatim>\<open>_migration\<close> that \<^verbatim>\<open>MIGR_TABLE\<close> declares.
\<close>

record row =
  date :: nat
  version :: int
  migration :: string
  migration_hash :: string
  schema_hash :: "string option"

text \<open>What the program prints, one value per \<^verbatim>\<open>print\<close> call.\<close>

datatype event =
    PrintHash string
  | CurrentlyAt int string nat
  | WarnNoMigrations
  | ToApply nat
  | Listed migration
  | Applying migration
  | Done
  | AllDone
  | WarnEmpty
  | Header string

text \<open>
  \<^verbatim>\<open>cursor.execute(query, multi=True)\<close> followed by the loop over its results:
  \<open>NoResults\<close> when \<^verbatim>\<open>execute\<close> returns \<^verbatim>\<open>None\<close>, \<open>Consumed\<close> when every
  result was read, \<open>Raised\<close> when a statement failed; the last two carry the database
  as the statements left it.
\<close>

datatype 'd results = NoResults | Consumed 'd | Raised error 'd

text \<open>
  What the program is run in: the names \<^verbatim>\<open>path.iterdir()\<close> yields, the text of each
  file, the server's answer to a batch of statements, which rows the server accepts into
  \<^verbatim>\<open>_migration\<close> given the rows it holds, and the reading of
  \<^verbatim>\<open>datetime.now()\<close> at each call. The statements of a migration act on \<open>data\<close>,
  which is everything in the database but the table \<^verbatim>\<open>_migration\<close>.
\<close>

record 'd env =
  iterdir :: "string list"
  read :: "string \<Rightarrow> string option"
  execute_multi :: "string \<Rightarrow> 'd \<Rightarrow> 'd results"
  accepts :: "row list \<Rightarrow> row \<Rightarrow> bool"
  datetime_now :: "nat \<Rightarrow> nat"

text \<open>
  The state a run changes: the database behind the connection (\<open>pending\<close> holds the
  rows inserted and not yet committed), how often the clock was read, and the output.
\<close>

record 'd state =
  data :: 'd
  committed :: "row list"
  pending :: "row list"
  clock :: nat
  out :: "event list"

type_synonym ('a, 'd) run = "'d state \<Rightarrow> (error + 'a) \<times> 'd state"

definition then_do :: "('a, 'd) run \<Rightarrow> ('a \<Rightarrow> ('b, 'd) run) \<Rightarrow> ('b, 'd) run" where
  "then_do m k s = (case m s of (Inl e, s') \<Rightarrow> (Inl e, s') | (Inr v, s') \<Rightarrow> k v s')"

definition lift :: "error + 'a \<Rightarrow> ('a, 'd) run" where
  "lift x s = (x, s)"

definition print :: "event \<Rightarrow> (unit, 'd) run" where
  "print ev s = (Inr (), s\<lparr>out := out s @ [ev]\<rparr>)"

definition commit :: "(unit, 'd) run" where
  "commit s = (Inr (), s\<lparr>committed := committed s @ pending s, pending := []\<rparr>)"

text \<open>
  \<^verbatim>\<open>SELECT date, version, migration, migration_hash FROM _migration ORDER BY date DESC LIMIT 1\<close>
  and \<^verbatim>\<open>next(cursor)\<close>: the row with the greatest date, \<^verbatim>\<open>StopIteration\<close> on an
  empty table.
\<close>

fun latest :: "row list \<Rightarrow> error + row" where
  "latest [] = Inl StopIteration"
| "latest (r # rs) = Inr (fold (\<lambda>x best. if date best < date x then x else best) rs r)"

definition select_latest :: "(row, 'd) run" where
  "select_latest s = (latest (committed s @ pending s), s)"

definition read_file :: "'d env \<Rightarrow> string \<Rightarrow> (string, 'd) run" where
  \<comment> \<open>\<^verbatim>\<open>open(file, "r")\<close> and \<^verbatim>\<open>read()\<close>; a file that cannot be opened raises.\<close>
  "read_file env f s = (case read env f of None \<Rightarrow> (Inl OSError, s) | Some q \<Rightarrow> (Inr q, s))"

definition execute :: "'d env \<Rightarrow> string \<Rightarrow> (unit, 'd) run" where
  "execute env query s =
     (case execute_multi env query (data s) of
        NoResults \<Rightarrow> print WarnEmpty s
      | Consumed d \<Rightarrow> (Inr (), s\<lparr>data := d\<rparr>)
      | Raised e d \<Rightarrow> (Inl e, s\<lparr>data := d\<rparr>))"

fun print_each :: "event list \<Rightarrow> (unit, 'd) run" where
  "print_each [] = lift (Inr ())"
| "print_each (ev # evs) = then_do (print ev) (\<lambda>_. print_each evs)"

subsection \<open>\<^verbatim>\<open>_record_migration\<close> and \<^verbatim>\<open>_apply_migration\<close>\<close>

definition record_migration :: "'d env \<Rightarrow> int \<Rightarrow> string \<Rightarrow> string \<Rightarrow> (unit, 'd) run" where
  "record_migration env v m migr_hash s =
     (let r = \<lparr>date = datetime_now env (clock s), version = v, migration = m,
                migration_hash = migr_hash, schema_hash = None\<rparr>;
          s' = s\<lparr>clock := clock s + 1\<rparr>
      in if accepts env (committed s @ pending s) r
         then (Inr (), s'\<lparr>pending := pending s @ [r]\<rparr>)
         else (Inl (DatabaseError ''INSERT''), s'))"

definition apply_migration :: "'d env \<Rightarrow> migration \<Rightarrow> string \<Rightarrow> (string, 'd) run" where
  "apply_migration env migr last_hash =
     then_do (read_file env (file' migr)) (\<lambda>query.
     then_do (execute env query) (\<lambda>_.
     then_do (record_migration env (ver_to migr) (file' migr)
                (hexdigest (sha1 (encode (last_hash @ query))))) (\<lambda>_.
     lift (Inr (hexdigest (sha1 (encode (last_hash @ query))))))))"

subsection \<open>The commands \<^verbatim>\<open>up\<close>, \<^verbatim>\<open>down\<close> and \<^verbatim>\<open>list\<close>\<close>

text \<open>
  The loop \<^verbatim>\<open>for migr in migrations\<close> of \<^verbatim>\<open>up\<close> and \<^verbatim>\<open>down\<close>; its value is
  \<^verbatim>\<open>migration_hash\<close> when the loop ends.
\<close>

fun apply_loop :: "'d env \<Rightarrow> migration list \<Rightarrow> string \<Rightarrow> (string, 'd) run" where
  "apply_loop env [] last_hash = lift (Inr last_hash)"
| "apply_loop env (migr # migrations) last_hash =
     then_do (print (Applying migr)) (\<lambda>_.
     then_do (apply_migration env migr last_hash) (\<lambda>h.
     then_do commit (\<lambda>_.
     then_do (print Done) (\<lambda>_.
     apply_loop env migrations h))))"

text \<open>The end of \<^verbatim>\<open>up\<close> and of \<^verbatim>\<open>down\<close>, from \<^verbatim>\<open>if migrations == []\<close> on.\<close>

definition apply_selected :: "'d env \<Rightarrow> migration list \<Rightarrow> string \<Rightarrow> (unit, 'd) run" where
  "apply_selected env migrations last_hash =
     (if migrations = [] then print WarnNoMigrations
      else
        then_do (print (ToApply (length migrations))) (\<lambda>_.
        then_do (print_each (map Listed migrations)) (\<lambda>_.
        then_do (apply_loop env migrations last_hash) (\<lambda>_.
        print AllDone))))"

text \<open>
  \<^verbatim>\<open>up\<close> down to \<^verbatim>\<open>migrations = migrations[start:]\<close>: the migrations to apply and
  the hash of the latest row. \<open>args_version\<close> is \<^verbatim>\<open>args.version\<close>, \<open>None\<close> when the
  option is not given.
\<close>

definition up_select :: "'d env \<Rightarrow> int option \<Rightarrow> (migration list \<times> string, 'd) run" where
  "up_select env args_version =
     then_do (lift (bind (get_migrations_from_dir (iterdir env)) (\<lambda>d. lookup d ''up''))) (\<lambda>migrations.
     then_do (lift (case args_version of
                      None \<Rightarrow> Inr migrations
                    | Some v \<Rightarrow> bind (bisect ver migrations v) (\<lambda>end. Inr (slice migrations 0 end)))) (\<lambda>migrations.
     then_do select_latest (\<lambda>r.
     then_do commit (\<lambda>_.
     then_do (print (PrintHash (migration_hash r))) (\<lambda>_.
     then_do (print (CurrentlyAt (version r) (migration r) (date r))) (\<lambda>_.
     then_do (lift (bisect ver migrations (version r))) (\<lambda>start.
     lift (Inr (slice migrations start (length migrations), migration_hash r)))))))))"

definition up :: "'d env \<Rightarrow> int option \<Rightarrow> (unit, 'd) run" where
  "up env args_version =
     then_do (up_select env args_version) (\<lambda>(migrations, last_hash).
     apply_selected env migrations last_hash)"

text \<open>
  \<^verbatim>\<open>down\<close> down to \<^verbatim>\<open>migrations = sorted(migrations[end:start], ...)\<close>; here
  \<^verbatim>\<open>args.version\<close> is required.
\<close>

definition down_select :: "'d env \<Rightarrow> int \<Rightarrow> (migration list \<times> string, 'd) run" where
  "down_select env args_version =
     then_do (lift (bind (get_migrations_from_dir (iterdir env)) (\<lambda>d. lookup d ''down''))) (\<lambda>migrations.
     then_do (lift (bisect ver migrations args_version)) (\<lambda>end.
     then_do select_latest (\<lambda>r.
     then_do commit (\<lambda>_.
     then_do (print (CurrentlyAt (version r) (migration r) (date r))) (\<lambda>_.
     then_do (lift (bisect ver migrations (version r))) (\<lambda>start.
     then_do (lift (sorted_by_ver_reverse (slice migrations end start))) (\<lambda>migrations.
     lift (Inr (migrations, migration_hash r)))))))))"

definition down :: "'d env \<Rightarrow> int \<Rightarrow> (unit, 'd) run" where
  "down env args_version =
     then_do (down_select env args_version) (\<lambda>(migrations, last_hash).
     apply_selected env migrations last_hash)"


section \<open>Properties\<close>

subsection \<open>Auxiliary notions\<close>

text \<open>The names of the groups of a pattern.\<close>

fun gnames :: "regex \<Rightarrow> string set" where
  "gnames (Cat a b) = gnames a \<union> gnames b"
| "gnames (Opt a) = gnames a"
| "gnames (Plus a) = gnames a"
| "gnames (Grp n a) = insert n (gnames a)"
| "gnames _ = {}"

text \<open>
  The descriptors built from a directory, in the order of its names, and the two lists
  they are sorted into.
\<close>

definition descriptors :: "string list \<Rightarrow> migration list" where
  "descriptors names =
     concat (map (\<lambda>name. case descriptor name of Inr (Some m) \<Rightarrow> [m] | _ \<Rightarrow> []) names)"

definition ups :: "string list \<Rightarrow> migration list" where
  "ups names = sort_key ver_to (filter (\<lambda>m. type m = ''up'') (descriptors names))"

definition downs :: "string list \<Rightarrow> migration list" where
  "downs names = sort_key ver_from (filter (\<lambda>m. type m = ''down'') (descriptors names))"

subsection \<open>Matching\<close>

declare rmatch.simps(7) [simp del]

lemma rchar_iff: "(g', r) \<in> set (rchar p s g) \<longleftrightarrow> g' = g \<and> (\<exists>x. s = x # r \<and> p x)"
  by (cases s) auto

lemma rmatch_Cat_iff:
  "(g'', r') \<in> set (rmatch (Cat a b) s g) \<longleftrightarrow>
     (\<exists>g' r. (g', r) \<in> set (rmatch a s g) \<and> (g'', r') \<in> set (rmatch b r g'))"
  by auto

lemma rmatch_Plus_iff:
  "(g'', r') \<in> set (rmatch (Plus a) s g) \<longleftrightarrow>
     (\<exists>g' r. (g', r) \<in> set (rmatch a s g) \<and>
        ((g'', r') = (g', r) \<or> length r < length s \<and> (g'', r') \<in> set (rmatch (Plus a) r g')))"
  by (subst rmatch.simps(7)) (auto split: if_splits)

lemma rmatch_Grp_iff:
  "(g'', r') \<in> set (rmatch (Grp n a) s g) \<longleftrightarrow>
     (\<exists>g'. (g', r') \<in> set (rmatch a s g) \<and> g'' = AList.update n (take (length s - length r') s) g')"
  by auto

lemma rmatch_keeps:
  "(g', r) \<in> set (rmatch re s g) \<Longrightarrow> n \<notin> gnames re \<Longrightarrow> map_of g' n = map_of g n"
proof (induction re s g arbitrary: g' r rule: rmatch.induct)
  case (5 a b s g)
  from "5.prems"(1) obtain g1 r1 where
    a: "(g1, r1) \<in> set (rmatch a s g)" and b: "(g', r) \<in> set (rmatch b r1 g1)"
    unfolding rmatch_Cat_iff by blast
  from "5.IH"(1) [OF a] "5.prems"(2) have "map_of g1 n = map_of g n" by simp
  moreover from "5.IH"(2) [OF a refl b] "5.prems"(2) have "map_of g' n = map_of g1 n" by simp
  ultimately show ?case by simp
next
  case (6 a s g)
  then show ?case by auto
next
  case (7 a s g)
  from "7.prems"(1) obtain g1 r1 where
    a: "(g1, r1) \<in> set (rmatch a s g)" and
    b: "(g', r) = (g1, r1) \<or> length r1 < length s \<and> (g', r) \<in> set (rmatch (Plus a) r1 g1)"
    using rmatch_Plus_iff [THEN iffD1] by blast
  from "7.IH"(1) [OF a] "7.prems"(2) have 1: "map_of g1 n = map_of g n" by simp
  from b show ?case
  proof
    assume "(g', r) = (g1, r1)"
    with 1 show ?thesis by simp
  next
    assume c: "length r1 < length s \<and> (g', r) \<in> set (rmatch (Plus a) r1 g1)"
    with "7.IH"(2) [OF a refl] "7.prems"(2) have "map_of g' n = map_of g1 n" by auto
    with 1 show ?thesis by simp
  qed
next
  case (8 k a s g)
  from "8.prems"(1) obtain g1 where
    a: "(g1, r) \<in> set (rmatch a s g)" and b: "g' = AList.update k (take (length s - length r) s) g1"
    unfolding rmatch_Grp_iff by blast
  from "8.IH" [OF a] "8.prems"(2) have "map_of g1 n = map_of g n" by simp
  with b "8.prems"(2) show ?case by (simp add: update_conv')
qed (simp_all add: rchar_iff)

lemma rmatch_Plus_Digit:
  "(g', r) \<in> set (rmatch (Plus Digit) s g) \<Longrightarrow>
     g' = g \<and> (\<exists>ds. s = ds @ r \<and> ds \<noteq> [] \<and> list_all is_digit ds)"
proof (induction s arbitrary: g' r)
  case Nil
  then show ?case by (simp add: rmatch_Plus_iff [of _ _ _ "[]"] rchar_iff)
next
  case (Cons x xs)
  from Cons.prems have x: "is_digit x"
    and c: "(g', r) = (g, xs) \<or> (g', r) \<in> set (rmatch (Plus Digit) xs g)"
    by (auto simp: rmatch_Plus_iff [of _ _ Digit "x # xs"] rchar_iff)
  from c show ?case
  proof
    assume "(g', r) = (g, xs)"
    with x show ?thesis by (auto intro: exI [of _ "[x]"])
  next
    assume "(g', r) \<in> set (rmatch (Plus Digit) xs g)"
    from Cons.IH [OF this] obtain ds where "g' = g" "xs = ds @ r" "list_all is_digit ds" by blast
    with x show ?thesis by (auto intro: exI [of _ "x # ds"])
  qed
qed

lemma fullmatch_SomeD: "fullmatch re s = Some g \<Longrightarrow> (g, []) \<in> set (rmatch re s [])"
proof -
  assume a: "fullmatch re s = Some g"
  then obtain rest xs where f: "filter (\<lambda>(g, rest). rest = []) (rmatch re s []) = (g, rest) # xs"
    by (auto simp: fullmatch_def split: list.splits)
  then have "(g, rest) \<in> set (filter (\<lambda>(g, rest). rest = []) (rmatch re s []))" by simp
  then show ?thesis by auto
qed

lemma fullmatch_MIGR_MATCH:
  assumes "fullmatch MIGR_MATCH name = Some g"
  shows "\<exists>c ds. (c = CHR ''V'' \<or> c = CHR ''U'') \<and> map_of g ''type'' = Some [c] \<and>
           map_of g ''num'' = Some ds \<and> ds \<noteq> [] \<and> list_all is_digit ds"
proof -
  define C where "C = Cat (Opt (lits ''__'' (Grp ''desc'' (Plus Dot))))
                       (Cat Dot (lits ''sq'' (Lit CHR ''l'')))"
  have names: "gnames C = {''desc''}" by (simp add: C_def)
  from fullmatch_SomeD [OF assms] have
    "(g, []) \<in> set (rmatch (Cat (Grp ''type'' (OneOf ''UV'')) (Cat (Grp ''num'' (Plus Digit)) C)) name [])"
    by (simp only: MIGR_MATCH_def C_def)
  from rmatch_Cat_iff [THEN iffD1, OF this] obtain g1 r1 where
    1: "(g1, r1) \<in> set (rmatch (Grp ''type'' (OneOf ''UV'')) name [])" and
    23: "(g, []) \<in> set (rmatch (Cat (Grp ''num'' (Plus Digit)) C) r1 g1)"
    by blast
  from rmatch_Cat_iff [THEN iffD1, OF 23] obtain g2 r2 where
    2: "(g2, r2) \<in> set (rmatch (Grp ''num'' (Plus Digit)) r1 g1)" and
    3: "(g, []) \<in> set (rmatch C r2 g2)"
    by blast
  from rmatch_Grp_iff [THEN iffD1, OF 1] obtain g0 where
    0: "(g0, r1) \<in> set (rmatch (OneOf ''UV'') name [])" and
    g1': "g1 = AList.update ''type'' (take (length name - length r1) name) g0"
    by blast
  from 0 obtain c where c: "c = CHR ''V'' \<or> c = CHR ''U''" and name: "name = c # r1" and g0: "g0 = []"
    by (auto simp: rchar_iff)
  from g1' name g0 have g1: "g1 = AList.update ''type'' [c] []" by simp
  from rmatch_Grp_iff [THEN iffD1, OF 2] obtain g' where pd: "(g', r2) \<in> set (rmatch (Plus Digit) r1 g1)"
    and g2: "g2 = AList.update ''num'' (take (length r1 - length r2) r1) g'"
    by blast
  from rmatch_Plus_Digit [OF pd] obtain ds where g': "g' = g1" and ds: "r1 = ds @ r2" "ds \<noteq> []" "list_all is_digit ds"
    by blast
  from g2 g' ds have g2': "g2 = AList.update ''num'' ds g1" by simp
  from rmatch_keeps [OF 3] names have "map_of g ''type'' = map_of g2 ''type''"
    and "map_of g ''num'' = map_of g2 ''num''" by simp_all
  with g2' g1 have "map_of g ''type'' = Some [c]" "map_of g ''num'' = Some ds"
    by (simp_all add: update_conv')
  with c ds show ?thesis by blast
qed

lemma int_of_str_digits: "ds \<noteq> [] \<Longrightarrow> list_all is_digit ds \<Longrightarrow> \<exists>n. int_of_str ds = Inr n"
  by (simp add: int_of_str_def)

text \<open>What \<open>descriptor\<close> returns for a name that matches.\<close>

lemma descriptor_match:
  assumes "fullmatch MIGR_MATCH name = Some g"
  shows "\<exists>ds n. lookup g ''num'' = Inr ds \<and> int_of_str ds = Inr n \<and>
           (descriptor name = Inr (Some \<lparr>type = ''up'', ver_from = n - 1, ver_to = n,
                                          desc = map_of g ''desc'', file' = name\<rparr>) \<or>
            descriptor name = Inr (Some \<lparr>type = ''down'', ver_from = n, ver_to = n - 1,
                                          desc = map_of g ''desc'', file' = name\<rparr>))"
proof -
  from fullmatch_MIGR_MATCH [OF assms] obtain c ds where
    c: "c = CHR ''V'' \<or> c = CHR ''U''" and t: "map_of g ''type'' = Some [c]" and
    n: "map_of g ''num'' = Some ds" and ds: "ds \<noteq> []" "list_all is_digit ds" by blast
  from int_of_str_digits [OF ds] obtain k where k: "int_of_str ds = Inr k" ..
  from c show ?thesis
  proof
    assume "c = CHR ''V''"
    with assms t n k show ?thesis
      by (simp add: descriptor_def bind_def lookup_def PREFIX_TO_TYPE_def Migration_def)
  next
    assume "c = CHR ''U''"
    with assms t n k show ?thesis
      by (simp add: descriptor_def bind_def lookup_def PREFIX_TO_TYPE_def Migration_def)
  qed
qed

lemma descriptor_cases:
  "descriptor name = Inr None \<or>
   (\<exists>m. descriptor name = Inr (Some m) \<and> (type m = ''up'' \<or> type m = ''down''))"
proof (cases "fullmatch MIGR_MATCH name")
  case None
  then show ?thesis by (simp add: descriptor_def)
next
  case (Some g)
  from descriptor_match [OF this] show ?thesis by auto
qed

subsection \<open>Scanning a directory\<close>

lemma scan_eq:
  "scan names [(''up'', us), (''down'', ds)] =
     Inr [(''up'', us @ filter (\<lambda>m. type m = ''up'') (descriptors names)),
          (''down'', ds @ filter (\<lambda>m. type m = ''down'') (descriptors names))]"
proof (induction names arbitrary: us ds)
  case Nil
  then show ?case by (simp add: descriptors_def)
next
  case (Cons name names)
  have d: "descriptors (name # names) =
             (case descriptor name of Inr (Some m) \<Rightarrow> [m] | _ \<Rightarrow> []) @ descriptors names"
    by (simp add: descriptors_def)
  from descriptor_cases [of name] show ?case
  proof (elim disjE exE conjE)
    assume "descriptor name = Inr None"
    with Cons.IH d show ?thesis by (simp add: bind_def)
  next
    fix m assume "descriptor name = Inr (Some m)" "type m = ''up''"
    with Cons.IH [of "us @ [m]" ds] d show ?thesis by (simp add: bind_def lookup_def)
  next
    fix m assume "descriptor name = Inr (Some m)" "type m = ''down''"
    with Cons.IH [of us "ds @ [m]"] d show ?thesis by (simp add: bind_def lookup_def)
  qed
qed

lemma mapM_Inr: "\<forall>x\<in>set xs. k x = Inr (h x) \<Longrightarrow> mapM k xs = Inr (map h xs)"
  by (induction xs) (simp_all add: bind_def)

lemma insort_key_decorated:
  "insort_key fst (k x, x) (map (\<lambda>y. (k y, y)) ys) = map (\<lambda>y. (k y, y)) (insort_key k x ys)"
  by (induction ys) simp_all

lemma sort_key_decorated:
  "map snd (sort_key fst (zip (map k xs) xs)) = sort_key k xs"
proof -
  have z: "zip (map k xs) xs = map (\<lambda>y. (k y, y)) xs" for xs :: "'a list"
    by (induction xs) simp_all
  have "sort_key fst (map (\<lambda>y. (k y, y)) xs) = map (\<lambda>y. (k y, y)) (sort_key k xs)"
    by (induction xs) (simp_all add: insort_key_decorated)
  with z show ?thesis by (simp add: comp_def)
qed

lemma sort_by_ver_eq:
  "\<forall>m\<in>set l. ver m = Inr (k m) \<Longrightarrow> sort_by_ver l = Inr (sort_key k l)"
  using mapM_Inr [of l ver k] by (simp add: sort_by_ver_def bind_def sort_key_decorated)

lemma ver_up: "type m = ''up'' \<Longrightarrow> ver m = Inr (ver_to m)"
  by (simp add: ver_def)

lemma ver_down: "type m = ''down'' \<Longrightarrow> ver m = Inr (ver_from m)"
  by (simp add: ver_def)

lemma get_migrations_from_dir_eq:
  "get_migrations_from_dir path = Inr [(''up'', ups path), (''down'', downs path)]"
proof -
  have 1: "sort_by_ver (filter (\<lambda>m. type m = ''up'') (descriptors path)) = Inr (ups path)"
    unfolding ups_def by (rule sort_by_ver_eq) (simp add: ver_up)
  have 2: "sort_by_ver (filter (\<lambda>m. type m = ''down'') (descriptors path)) = Inr (downs path)"
    unfolding downs_def by (rule sort_by_ver_eq) (simp add: ver_down)
  show ?thesis
    using scan_eq [of path "[]" "[]"] 1 2
    by (simp add: get_migrations_from_dir_def PREFIX_TO_TYPE_def bind_def)
qed

lemma ups_type: "m \<in> set (ups path) \<Longrightarrow> type m = ''up''"
  by (simp add: ups_def)

lemma downs_type: "m \<in> set (downs path) \<Longrightarrow> type m = ''down''"
  by (simp add: downs_def)

lemma sorted_ups: "sorted (map ver_to (ups path))"
  by (simp add: ups_def)

lemma sorted_downs: "sorted (map ver_from (downs path))"
  by (simp add: downs_def)

lemma descriptors_types: "m \<in> set (descriptors path) \<Longrightarrow> type m = ''up'' \<or> type m = ''down''"
proof -
  assume "m \<in> set (descriptors path)"
  then obtain name where "descriptor name = Inr (Some m)"
    by (auto simp: descriptors_def split: sum.splits option.splits)
  with descriptor_cases [of name] show ?thesis by auto
qed

lemma partition_descriptors:
  "mset (filter (\<lambda>m. type m = ''up'') (descriptors path)) +
   mset (filter (\<lambda>m. type m = ''down'') (descriptors path)) = mset (descriptors path)"
proof -
  have "filter (\<lambda>m. type m = ''down'') (descriptors path) =
        filter (\<lambda>m. \<not> type m = ''up'') (descriptors path)"
    by (rule filter_cong) (auto dest: descriptors_types)
  then show ?thesis by simp
qed


subsection \<open>The descriptor of a file\<close>

text \<open>
  C6. A descriptor parsed from a file name, with \<open>N\<close> the number the group
  \<^verbatim>\<open>num\<close> captured: it is an up or a down descriptor; if up, it leads from \<open>N - 1\<close> to
  \<open>N\<close>; if down, from \<open>N\<close> to \<open>N - 1\<close>.
\<close>

theorem version_arithmetic:
  assumes "descriptor name = Inr (Some m)"
  shows "\<exists>g num N. fullmatch MIGR_MATCH name = Some g \<and> lookup g ''num'' = Inr num \<and>
           int_of_str num = Inr N \<and>
           (type m = ''up'' \<or> type m = ''down'') \<and>
           (type m = ''up'' \<longrightarrow> ver_from m = N - 1 \<and> ver_to m = N) \<and>
           (type m = ''down'' \<longrightarrow> ver_from m = N \<and> ver_to m = N - 1)"
proof (cases "fullmatch MIGR_MATCH name")
  case None
  with assms show ?thesis by (simp add: descriptor_def)
next
  case (Some g)
  from descriptor_match [OF Some] assms Some show ?thesis by auto
qed


theorem version_arithmetic_witness:
  "(descriptor ''V2__add_col.sql'' =
      Inr (Some \<lparr>type = ''up'', ver_from = 1, ver_to = 2, desc = Some ''add_col'',
                  file' = ''V2__add_col.sql''\<rparr>) \<and>
    (\<exists>g. fullmatch MIGR_MATCH ''V2__add_col.sql'' = Some g \<and> lookup g ''num'' = Inr ''2'') \<and>
    int_of_str ''2'' = Inr 2) \<and>
   (descriptor ''U1__init.sql'' =
      Inr (Some \<lparr>type = ''down'', ver_from = 1, ver_to = 0, desc = Some ''init'',
                  file' = ''U1__init.sql''\<rparr>) \<and>
    (\<exists>g. fullmatch MIGR_MATCH ''U1__init.sql'' = Some g \<and> lookup g ''num'' = Inr ''1'') \<and>
    int_of_str ''1'' = Inr 1)"
proof -
  have v: "descriptor ''V2__add_col.sql'' =
      Inr (Some \<lparr>type = ''up'', ver_from = 1, ver_to = 2, desc = Some ''add_col'',
                  file' = ''V2__add_col.sql''\<rparr>)"
    by (simp add: descriptor_def fullmatch_def MIGR_MATCH_def is_digit_def bind_def lookup_def
          PREFIX_TO_TYPE_def int_of_str_def digit_val_def Migration_def rmatch.simps(7))
  have u: "descriptor ''U1__init.sql'' =
      Inr (Some \<lparr>type = ''down'', ver_from = 1, ver_to = 0, desc = Some ''init'',
                  file' = ''U1__init.sql''\<rparr>)"
    by (simp add: descriptor_def fullmatch_def MIGR_MATCH_def is_digit_def bind_def lookup_def
          PREFIX_TO_TYPE_def int_of_str_def digit_val_def Migration_def rmatch.simps(7))
  have gv: "fullmatch MIGR_MATCH ''V2__add_col.sql'' = Some [(''type'', ''V''), (''num'', ''2''), (''desc'', ''add_col'')]"
    by (simp add: fullmatch_def MIGR_MATCH_def is_digit_def rmatch.simps(7))
  have gu: "fullmatch MIGR_MATCH ''U1__init.sql'' = Some [(''type'', ''U''), (''num'', ''1''), (''desc'', ''init'')]"
    by (simp add: fullmatch_def MIGR_MATCH_def is_digit_def rmatch.simps(7))
  show ?thesis
    using version_arithmetic [OF v] version_arithmetic [OF u] v u gv gu
    by (simp add: lookup_def int_of_str_def digit_val_def is_digit_def)
qed



text \<open>
  C7 (the code departs from the claim). \<^verbatim>\<open>MIGR_MATCH\<close> has an unescaped dot before
  \<^verbatim>\<open>sql\<close>: the name \<^verbatim>\<open>V1xsql\<close>, which the grammar
  \<^verbatim>\<open>^(U|V)(\d+)(__(description))?\.sql$\<close> rejects, yields the up descriptor of version 1.
\<close>

theorem unescaped_dot_accepts_other_names:
  "descriptor ''V1xsql'' =
     Inr (Some \<lparr>type = ''up'', ver_from = 0, ver_to = 1, desc = None, file' = ''V1xsql''\<rparr>) \<and>
   fullmatch SPEC_GRAMMAR ''V1xsql'' = None"
  by (simp add: descriptor_def fullmatch_def MIGR_MATCH_def SPEC_GRAMMAR_def is_digit_def bind_def
        lookup_def PREFIX_TO_TYPE_def int_of_str_def digit_val_def Migration_def rmatch.simps(7))


subsection \<open>The migration set\<close>

text \<open>
  C8. For every directory, \<^verbatim>\<open>_get_migrations_from_dir\<close> returns: it gives the up list
  and the down list, which together hold exactly the descriptors parsed from the directory,
  the up descriptors in the first in ascending order of \<open>ver_to\<close>, the down descriptors in
  the second in ascending order of \<open>ver_from\<close>.
\<close>

theorem migration_set_sorted:
  "\<exists>us ds. get_migrations_from_dir path = Inr [(''up'', us), (''down'', ds)] \<and>
     mset us + mset ds = mset (descriptors path) \<and>
     (\<forall>m\<in>set us. type m = ''up'') \<and> (\<forall>m\<in>set ds. type m = ''down'') \<and>
     sorted (map ver_to us) \<and> sorted (map ver_from ds)"
proof -
  have "mset (ups path) + mset (downs path) = mset (descriptors path)"
    using partition_descriptors [of path] by (simp add: ups_def downs_def)
  then show ?thesis
    using get_migrations_from_dir_eq [of path] sorted_ups [of path] sorted_downs [of path]
    by (auto simp: ups_type downs_type)
qed


lemma example_dir:
  "get_migrations_from_dir [''V2__add_col.sql'', ''README.md'', ''V1__init.sql'', ''U1__init.sql''] =
     Inr [(''up'', [\<lparr>type = ''up'', ver_from = 0, ver_to = 1, desc = Some ''init'', file' = ''V1__init.sql''\<rparr>,
                    \<lparr>type = ''up'', ver_from = 1, ver_to = 2, desc = Some ''add_col'', file' = ''V2__add_col.sql''\<rparr>]),
          (''down'', [\<lparr>type = ''down'', ver_from = 1, ver_to = 0, desc = Some ''init'', file' = ''U1__init.sql''\<rparr>])]"
  by (simp add: get_migrations_from_dir_def descriptor_def fullmatch_def MIGR_MATCH_def is_digit_def
        bind_def lookup_def PREFIX_TO_TYPE_def int_of_str_def digit_val_def Migration_def
        sort_by_ver_def ver_def rmatch.simps(7))

theorem migration_set_sorted_witness:
  "\<exists>us ds.
     get_migrations_from_dir [''V2__add_col.sql'', ''README.md'', ''V1__init.sql'', ''U1__init.sql''] =
       Inr [(''up'', us), (''down'', ds)] \<and>
     us = [\<lparr>type = ''up'', ver_from = 0, ver_to = 1, desc = Some ''init'', file' = ''V1__init.sql''\<rparr>,
           \<lparr>type = ''up'', ver_from = 1, ver_to = 2, desc = Some ''add_col'', file' = ''V2__add_col.sql''\<rparr>] \<and>
     ds = [\<lparr>type = ''down'', ver_from = 1, ver_to = 0, desc = Some ''init'', file' = ''U1__init.sql''\<rparr>] \<and>
     (\<forall>m\<in>set us. type m = ''up'') \<and> (\<forall>m\<in>set ds. type m = ''down'') \<and>
     sorted (map ver_to us) \<and> sorted (map ver_from ds)"
proof -
  from migration_set_sorted [of "[''V2__add_col.sql'', ''README.md'', ''V1__init.sql'', ''U1__init.sql'']"]
  obtain us ds where
    g: "get_migrations_from_dir [''V2__add_col.sql'', ''README.md'', ''V1__init.sql'', ''U1__init.sql''] =
       Inr [(''up'', us), (''down'', ds)]" and
    t: "\<forall>m\<in>set us. type m = ''up''" "\<forall>m\<in>set ds. type m = ''down''" and
    s: "sorted (map ver_to us)" "sorted (map ver_from ds)"
    by (elim exE conjE)
  from g [symmetric] have
    "us = [\<lparr>type = ''up'', ver_from = 0, ver_to = 1, desc = Some ''init'', file' = ''V1__init.sql''\<rparr>,
           \<lparr>type = ''up'', ver_from = 1, ver_to = 2, desc = Some ''add_col'', file' = ''V2__add_col.sql''\<rparr>]"
    "ds = [\<lparr>type = ''down'', ver_from = 1, ver_to = 0, desc = Some ''init'', file' = ''U1__init.sql''\<rparr>]"
    by (simp_all only: example_dir sum.inject list.inject prod.inject simp_thms)
  with g t s show ?thesis by blast
qed

subsection \<open>The command \<^verbatim>\<open>list\<close>\<close>





end
